theory Spec2Isabelle
  imports Main "HOL-Library.AList"
begin

section \<open>JavaScript values as far as the loader looks at them\<close>

text \<open>
  The loader (\<^verbatim>\<open>packages/astro-nocodb/loaders.ts\<close>) handles records of type \<^verbatim>\<open>any\<close>.
  It only ever tests a value for truthiness (\<^verbatim>\<open>a || b\<close>, \<^verbatim>\<open>if (parsed[bodyField])\<close>) and
  turns it into a string (\<^verbatim>\<open>String(v)\<close>). Numbers are the integer-valued ones, in the range
  where \<^verbatim>\<open>String\<close> prints plain decimal digits; \<open>JNaN\<close> stands for the one falsy
  number besides zero. An object is the list of its own properties in insertion order.
\<close>

datatype jsval =
    JUndefined
  | JNull
  | JBool bool
  | JNum int
  | JNaN
  | JStr string
  | JArr "jsval list"
  | JObj "(string \<times> jsval) list"

type_synonym jsrecord = "(string \<times> jsval) list"

fun truthy :: "jsval \<Rightarrow> bool" where
  "truthy JUndefined = False"
| "truthy JNull = False"
| "truthy (JBool b) = b"
| "truthy (JNum n) = (n \<noteq> 0)"
| "truthy JNaN = False"
| "truthy (JStr s) = (s \<noteq> [])"
| "truthy (JArr xs) = True"
| "truthy (JObj ps) = True"

text \<open>\<^verbatim>\<open>a || b\<close>: the left operand when it is truthy, the right one otherwise.\<close>

definition js_or :: "jsval \<Rightarrow> jsval \<Rightarrow> jsval" where
  "js_or a b = (if truthy a then a else b)"

text \<open>
  \<^verbatim>\<open>obj.key\<close> and \<^verbatim>\<open>obj[key]\<close> on an object: \<^verbatim>\<open>undefined\<close> for a property it does not have.
  Only the object's own properties are looked at, not what \<^verbatim>\<open>Object.prototype\<close> lends it.
\<close>

definition get_prop :: "jsrecord \<Rightarrow> string \<Rightarrow> jsval" where
  "get_prop obj key = (case map_of obj key of None \<Rightarrow> JUndefined | Some v \<Rightarrow> v)"

fun digits :: "nat \<Rightarrow> string" where
  "digits n =
     (if n < 10 then [''0123456789'' ! n]
      else digits (n div 10) @ [''0123456789'' ! (n mod 10)])"

declare digits.simps [simp del]

definition number_to_string :: "int \<Rightarrow> string" where
  "number_to_string n = (if n < 0 then CHR ''-'' # digits (nat (- n)) else digits (nat n))"

fun join :: "string \<Rightarrow> string list \<Rightarrow> string" where
  "join sep [] = []"
| "join sep [x] = x"
| "join sep (x # y # ys) = x @ sep @ join sep (y # ys)"

text \<open>
  \<^verbatim>\<open>String(v)\<close>. An array prints its elements joined by commas, \<^verbatim>\<open>null\<close> and
  \<^verbatim>\<open>undefined\<close> elements as the empty string; a plain object prints as
  \<^verbatim>\<open>[object Object]\<close>.
\<close>

fun js_String :: "jsval \<Rightarrow> string" where
  "js_String JUndefined = ''undefined''"
| "js_String JNull = ''null''"
| "js_String (JBool b) = (if b then ''true'' else ''false'')"
| "js_String (JNum n) = number_to_string n"
| "js_String JNaN = ''NaN''"
| "js_String (JStr s) = s"
| "js_String (JArr xs) =
     join '','' (map (\<lambda>x. if x = JNull \<or> x = JUndefined then [] else js_String x) xs)"
| "js_String (JObj ps) = ''[object Object]''"

section \<open>The paged fetcher: \<^verbatim>\<open>fetchAll\<close>\<close>

text \<open>
  \<^verbatim>\<open>queryParams\<close> is a \<^verbatim>\<open>Record<string, any>\<close> whose \<^verbatim>\<open>limit\<close>, when it is given, is a number
  (the page size); \<open>qp_other\<close> holds the remaining keys (\<^verbatim>\<open>where\<close>, \<^verbatim>\<open>sort\<close>, ...).
  The numbers of the fetcher (\<^verbatim>\<open>offset\<close>, \<^verbatim>\<open>limit\<close>, \<^verbatim>\<open>retries\<close>, \<^verbatim>\<open>delay\<close>) are integers;
  adding, subtracting one and doubling are exact on them.
\<close>

record query_params =
  qp_limit :: "int option"
  qp_other :: jsrecord

text \<open>\<^verbatim>\<open>queryParams.limit || 100\<close>: an absent limit and the falsy limit 0 give 100.\<close>

definition page_limit :: "query_params \<Rightarrow> int" where
  "page_limit qp = (case qp_limit qp of None \<Rightarrow> 100 | Some n \<Rightarrow> if n \<noteq> 0 then n else 100)"

definition query_entries :: "query_params \<Rightarrow> jsrecord" where
  "query_entries qp =
     (case qp_limit qp of None \<Rightarrow> [] | Some n \<Rightarrow> [(''limit'', JNum n)]) @ qp_other qp"

text \<open>
  Lines 93 to 100: \<^verbatim>\<open>params = { ...queryParams, offset, limit: queryParams.limit || 100 }\<close>,
  then \<^verbatim>\<open>params.fields = fields.join(',')\<close> when there are fields, then every parameter is
  set on the URL as \<^verbatim>\<open>String(value)\<close>.
\<close>

definition search_params :: "query_params \<Rightarrow> string list \<Rightarrow> int \<Rightarrow> (string \<times> string) list" where
  "search_params qp field_list offset =
     (let params = AList.update ''limit'' (JNum (page_limit qp))
                     (AList.update ''offset'' (JNum offset) (query_entries qp));
          params' = (if length field_list > 0
                     then AList.update ''fields'' (JStr (join '','' field_list)) params
                     else params)
      in map (\<lambda>(key, v). (key, js_String v)) params')"

record request =
  req_url :: string
  req_params :: "(string \<times> string) list"
  req_token :: string

definition fetch_request :: "string \<Rightarrow> string \<Rightarrow> query_params \<Rightarrow> string list \<Rightarrow> int \<Rightarrow> request" where
  "fetch_request url apiKey qp field_list offset =
     \<lparr>req_url = url, req_params = search_params qp field_list offset, req_token = apiKey\<rparr>"

text \<open>
  What \<^verbatim>\<open>axios.get\<close> can hand back. \<open>Resolved status d\<close> is a response object with
  \<^verbatim>\<open>response.status = status\<close> and \<^verbatim>\<open>response.data = d\<close> (\<open>None\<close> for a \<^verbatim>\<open>null\<close> body);
  \<open>Rejected st\<close> is a thrown error whose \<^verbatim>\<open>error.response.status\<close> is \<open>st\<close>
  (\<open>None\<close> when the error carries no response, as a network failure does).
  In the body, \<open>list\<close> is \<^verbatim>\<open>data.list\<close> (\<open>None\<close> when absent or \<^verbatim>\<open>null\<close>) and
  \<open>pageInfo\<close> is \<^verbatim>\<open>data.pageInfo\<close>, of which only the truthiness of \<^verbatim>\<open>isLastPage\<close> is read.
\<close>

record page_info =
  isLastPage :: bool

record response_data =
  list :: "jsrecord list option"
  pageInfo :: "page_info option"

datatype reply =
    Resolved nat "response_data option"
  | Rejected "nat option"

text \<open>
  What can be thrown: the error of a rejected \<^verbatim>\<open>axios.get\<close> with its
  \<^verbatim>\<open>error.response.status\<close>, the \<^verbatim>\<open>TypeError\<close> of reading \<^verbatim>\<open>data.list\<close> on a \<^verbatim>\<open>null\<close> body,
  the \<^verbatim>\<open>Error\<close> of line 116 and the \<^verbatim>\<open>AstroError\<close> of line 27. None of the last three has
  a \<^verbatim>\<open>response\<close> property.
\<close>

datatype js_error =
    AxiosError "nat option"
  | TypeError
  | Error string
  | AstroError string

text \<open>\<^verbatim>\<open>error.response && error.response.status === 429\<close>\<close>

fun is_429_error :: "js_error \<Rightarrow> bool" where
  "is_429_error (AxiosError st) = (st = Some 429)"
| "is_429_error e = False"

text \<open>
  One invocation of \<^verbatim>\<open>fetchAll\<close> ends in one of four ways: it returns a list, it waits and
  calls itself for the same offset, it calls itself for the next offset, or it throws.
\<close>

datatype step =
    Return "jsrecord list"
  | Retry
  | NextPage "jsrecord list"
  | Throw js_error

text \<open>Lines 103 to 129, the body of the \<^verbatim>\<open>try\<close>.\<close>

definition try_body :: "int \<Rightarrow> jsrecord list \<Rightarrow> reply \<Rightarrow> step" where
  "try_body retries results r =
     (case r of
        Rejected st \<Rightarrow> Throw (AxiosError st)
      | Resolved status d \<Rightarrow>
          if status = 429 then
            (if retries > 0 then Retry
             else Throw (Error ''Exceeded retry limit for 429 error''))
          else
            (case d of
               None \<Rightarrow> Throw TypeError
             | Some dat \<Rightarrow>
                 (let results' = results @ (case list dat of None \<Rightarrow> [] | Some l \<Rightarrow> l);
                      last_page = (case pageInfo dat of None \<Rightarrow> False | Some p \<Rightarrow> isLastPage p)
                  in if \<not> last_page then NextPage results' else Return results')))"

text \<open>Lines 130 to 144, the \<^verbatim>\<open>catch\<close> clause.\<close>

definition catch_clause :: "int \<Rightarrow> jsrecord list \<Rightarrow> js_error \<Rightarrow> step" where
  "catch_clause retries results e =
     (if is_429_error e then
        (if retries > 0 then Retry else Return results)
      else Return results)"

definition fetch_step :: "int \<Rightarrow> jsrecord list \<Rightarrow> reply \<Rightarrow> step" where
  "fetch_step retries results r =
     (case try_body retries results r of
        Throw e \<Rightarrow> catch_clause retries results e
      | s \<Rightarrow> s)"

text \<open>
  A run of \<^verbatim>\<open>fetchAll\<close> is driven by the replies the server gives, in order. It leaves a
  trace: \<open>Enter offset retries delay\<close> marks an invocation with these arguments,
  \<open>Get\<close> is the HTTP request, \<open>Wait ms\<close> is \<^verbatim>\<open>setTimeout(resolve, ms)\<close>. The run ends
  \<open>Returned\<close> or \<open>Threw\<close>; it is \<open>Pending\<close> when a request is out and the script has
  no reply left for it. The recursive calls are returned as they are (\<^verbatim>\<open>return fetchAll(...)\<close>,
  not awaited inside the \<^verbatim>\<open>try\<close>), so the outcome of the callee is the outcome of the caller.
\<close>

datatype effect =
    Enter int int int
  | Get request
  | Wait int

datatype outcome =
    Returned "jsrecord list"
  | Threw js_error
  | Pending

definition emit :: "effect list \<Rightarrow> effect list \<times> outcome \<Rightarrow> effect list \<times> outcome" where
  "emit es run = (es @ fst run, snd run)"

fun fetchAll ::
  "string \<Rightarrow> string \<Rightarrow> query_params \<Rightarrow> string list \<Rightarrow> int \<Rightarrow> jsrecord list \<Rightarrow> int \<Rightarrow> int \<Rightarrow>
   reply list \<Rightarrow> effect list \<times> outcome" where
  "fetchAll url apiKey qp field_list offset results retries delay [] =
     ([Enter offset retries delay, Get (fetch_request url apiKey qp field_list offset)], Pending)"
| "fetchAll url apiKey qp field_list offset results retries delay (r # script) =
     (case fetch_step retries results r of
        Return rs \<Rightarrow>
          ([Enter offset retries delay, Get (fetch_request url apiKey qp field_list offset)],
           Returned rs)
      | Throw e \<Rightarrow>
          ([Enter offset retries delay, Get (fetch_request url apiKey qp field_list offset)],
           Threw e)
      | Retry \<Rightarrow>
          emit [Enter offset retries delay, Get (fetch_request url apiKey qp field_list offset),
                Wait delay]
            (fetchAll url apiKey qp field_list offset results (retries - 1) (delay * 2) script)
      | NextPage rs \<Rightarrow>
          emit [Enter offset retries delay, Get (fetch_request url apiKey qp field_list offset)]
            (fetchAll url apiKey qp field_list (offset + page_limit qp) rs retries delay script))"

text \<open>What a trace shows: the requests sent, the waits, the arguments of each invocation.\<close>

fun requests :: "effect list \<Rightarrow> request list" where
  "requests [] = []"
| "requests (Get rq # es) = rq # requests es"
| "requests (Enter a b c # es) = requests es"
| "requests (Wait ms # es) = requests es"

fun waits :: "effect list \<Rightarrow> int list" where
  "waits [] = []"
| "waits (Wait ms # es) = ms # waits es"
| "waits (Enter a b c # es) = waits es"
| "waits (Get rq # es) = waits es"

fun invocations :: "effect list \<Rightarrow> (int \<times> int \<times> int) list" where
  "invocations [] = []"
| "invocations (Enter a b c # es) = (a, b, c) # invocations es"
| "invocations (Get rq # es) = invocations es"
| "invocations (Wait ms # es) = invocations es"

text \<open>
  The kinds of reply: a rate-limit reply (status 429, as a response or as a thrown error),
  a page (a response with a body and another status), and every other reply, a failure.
\<close>

fun is_429 :: "reply \<Rightarrow> bool" where
  "is_429 (Resolved status d) = (status = 429)"
| "is_429 (Rejected st) = (st = Some 429)"

fun is_page :: "reply \<Rightarrow> bool" where
  "is_page (Resolved status d) = (status \<noteq> 429 \<and> d \<noteq> None)"
| "is_page (Rejected st) = False"

definition is_failure :: "reply \<Rightarrow> bool" where
  "is_failure r = (\<not> is_429 r \<and> \<not> is_page r)"

text \<open>The records a reply delivers, and whether it says it is the last page.\<close>

fun page_rows :: "reply \<Rightarrow> jsrecord list" where
  "page_rows (Resolved status (Some dat)) =
     (if status = 429 then [] else (case list dat of None \<Rightarrow> [] | Some l \<Rightarrow> l))"
| "page_rows (Resolved status None) = []"
| "page_rows (Rejected st) = []"

fun reports_last :: "reply \<Rightarrow> bool" where
  "reports_last (Resolved status (Some dat)) =
     (case pageInfo dat of None \<Rightarrow> False | Some p \<Rightarrow> isLastPage p)"
| "reports_last (Resolved status None) = False"
| "reports_last (Rejected st) = False"

section \<open>The ingest pipeline: \<^verbatim>\<open>makeLoader\<close>, \<^verbatim>\<open>load\<close>\<close>

text \<open>The arguments \<^verbatim>\<open>makeLoader\<close> closes over (lines 42 to 62).\<close>

record loader_args =
  ld_name :: string
  ld_url :: string
  ld_apiKey :: string
  ld_queryParams :: query_params
  ld_bodyField :: string
  ld_fields :: "string list"
  ld_mapper :: "(jsrecord \<Rightarrow> jsrecord) option"
  ld_retries :: int
  ld_delay :: int

text \<open>What \<^verbatim>\<open>store.set\<close> receives: \<^verbatim>\<open>{ id, data }\<close>, with \<^verbatim>\<open>body\<close> when it was set.\<close>

record entry =
  entry_id :: string
  entry_data :: jsrecord
  entry_body :: "jsval option"

text \<open>Line 68: \<^verbatim>\<open>mapper ? mapper(rawItem) : rawItem\<close>\<close>

definition mapped_item :: "loader_args \<Rightarrow> jsrecord \<Rightarrow> jsrecord" where
  "mapped_item ld rawItem = (case ld_mapper ld of None \<Rightarrow> rawItem | Some m \<Rightarrow> m rawItem)"

text \<open>Line 69: \<^verbatim>\<open>String(mappedItem.Id || mappedItem.id || 'unknown')\<close>\<close>

definition item_id :: "jsrecord \<Rightarrow> string" where
  "item_id mappedItem =
     js_String (js_or (js_or (get_prop mappedItem ''Id'') (get_prop mappedItem ''id''))
                  (JStr ''unknown''))"

text \<open>
  Lines 71 to 75. \<^verbatim>\<open>storeEntry.data\<close> is the object \<^verbatim>\<open>parsed\<close> itself, so
  \<^verbatim>\<open>delete parsed[bodyField]\<close> takes the key out of the entry's data.
\<close>

definition store_entry :: "string \<Rightarrow> string \<Rightarrow> jsrecord \<Rightarrow> entry" where
  "store_entry bodyField i parsed =
     (if truthy (get_prop parsed bodyField)
      then \<lparr>entry_id = i, entry_data = AList.delete bodyField parsed,
            entry_body = Some (get_prop parsed bodyField)\<rparr>
      else \<lparr>entry_id = i, entry_data = parsed, entry_body = None\<rparr>)"

text \<open>
  Modelled from the spec: the destination store is the hosting framework's \<^verbatim>\<open>DataStore\<close>,
  which is not under src/. Its \<^verbatim>\<open>set\<close> is an id-keyed upsert over entries kept in
  insertion order: an entry whose id is in the store replaces the one there, in its place;
  any other entry goes to the end.
\<close>

type_synonym data_store = "(string \<times> entry) list"

definition store_set :: "entry \<Rightarrow> data_store \<Rightarrow> data_store" where
  "store_set e store = AList.update (entry_id e) e store"

text \<open>
  \<^verbatim>\<open>parseData({ id, data })\<close> is the framework's schema validation: it gives the validated
  record or throws.
\<close>

type_synonym parse_data = "string \<Rightarrow> jsrecord \<Rightarrow> js_error + jsrecord"

text \<open>
  Lines 67 to 77, the loop over the fetched items. A throw of \<^verbatim>\<open>parseData\<close> leaves the
  loop; the store keeps what was set before.
\<close>

fun load_items ::
  "loader_args \<Rightarrow> parse_data \<Rightarrow> jsrecord list \<Rightarrow> data_store \<Rightarrow> data_store \<times> js_error option" where
  "load_items ld parseData [] store = (store, None)"
| "load_items ld parseData (rawItem # items) store =
     (let mappedItem = mapped_item ld rawItem;
          i = item_id mappedItem
      in case parseData i mappedItem of
           Inl e \<Rightarrow> (store, Some e)
         | Inr parsed \<Rightarrow>
             load_items ld parseData items
               (store_set (store_entry (ld_bodyField ld) i parsed) store))"

text \<open>
  Lines 65 to 78: \<^verbatim>\<open>load\<close> fetches with offset 0 and an empty accumulator, then runs the
  loop. It has no result (\<open>None\<close>) while the fetch is pending.
\<close>

definition load ::
  "loader_args \<Rightarrow> parse_data \<Rightarrow> reply list \<Rightarrow> data_store \<Rightarrow> (data_store \<times> js_error option) option" where
  "load ld parseData script store =
     (case snd (fetchAll (ld_url ld) (ld_apiKey ld) (ld_queryParams ld) (ld_fields ld) 0 []
                  (ld_retries ld) (ld_delay ld) script) of
        Returned items \<Rightarrow> Some (load_items ld parseData items store)
      | Threw e \<Rightarrow> Some (store, Some e)
      | Pending \<Rightarrow> None)"

section \<open>The configuration: \<^verbatim>\<open>nocodbCollections\<close>\<close>





section \<open>Vocabulary of the properties\<close>

text \<open>Among the first \<open>k\<close> replies: how many were pages, how many were rate-limit replies.\<close>

definition pages_before :: "nat \<Rightarrow> reply list \<Rightarrow> nat" where
  "pages_before k script = length (filter is_page (take k script))"

definition retries_before :: "nat \<Rightarrow> reply list \<Rightarrow> nat" where
  "retries_before k script = length (filter is_429 (take k script))"

text \<open>A well-formed page: status 200, a record list and a \<^verbatim>\<open>pageInfo.isLastPage\<close> flag.\<close>

definition page :: "jsrecord list \<Rightarrow> bool \<Rightarrow> reply" where
  "page l b = Resolved 200 (Some \<lparr>list = Some l, pageInfo = Some \<lparr>isLastPage = b\<rparr>\<rparr>)"

text \<open>The entries the loop of \<^verbatim>\<open>load\<close> hands to \<^verbatim>\<open>store.set\<close>, in order.\<close>

fun writes :: "loader_args \<Rightarrow> parse_data \<Rightarrow> jsrecord list \<Rightarrow> entry list" where
  "writes ld parseData [] = []"
| "writes ld parseData (rawItem # items) =
     (case parseData (item_id (mapped_item ld rawItem)) (mapped_item ld rawItem) of
        Inl e \<Rightarrow> []
      | Inr parsed \<Rightarrow>
          store_entry (ld_bodyField ld) (item_id (mapped_item ld rawItem)) parsed
            # writes ld parseData items)"

section \<open>One invocation\<close>

lemma fetch_step_429_retry:
  "is_429 r \<Longrightarrow> 0 < retries \<Longrightarrow> fetch_step retries results r = Retry"
  by (cases r) (auto simp: fetch_step_def try_body_def catch_clause_def)

lemma fetch_step_429_exhausted:
  "is_429 r \<Longrightarrow> \<not> 0 < retries \<Longrightarrow> fetch_step retries results r = Return results"
  by (cases r) (auto simp: fetch_step_def try_body_def catch_clause_def)

lemma fetch_step_failure: "is_failure r \<Longrightarrow> fetch_step retries results r = Return results"
  by (cases r) (auto simp: is_failure_def fetch_step_def try_body_def catch_clause_def)

lemma fetch_step_page:
  "is_page r \<Longrightarrow> fetch_step retries results r =
     (if reports_last r then Return (results @ page_rows r)
      else NextPage (results @ page_rows r))"
  by (cases r) (auto simp: fetch_step_def try_body_def Let_def split: option.splits)

lemma is_429_not_page: "is_429 r \<Longrightarrow> \<not> is_page r"
  by (cases r) auto

lemma page_rows_not_page: "\<not> is_page r \<Longrightarrow> page_rows r = []"
  by (cases r rule: page_rows.cases) auto

lemma reply_kinds:
  obtains (rate_limited) "is_429 r" "\<not> is_page r"
  | (page) "is_page r" "\<not> is_429 r"
  | (failure) "is_failure r" "\<not> is_page r" "\<not> is_429 r"
  using is_429_not_page is_failure_def by blast

text \<open>The \<^verbatim>\<open>catch\<close> clause takes every throw of the \<^verbatim>\<open>try\<close> body, line 116 included.\<close>

lemma fetch_step_no_throw: "fetch_step retries results r \<noteq> Throw e"
  by (cases r)
     (auto simp: fetch_step_def try_body_def catch_clause_def Let_def split: option.splits)

section \<open>Traces of a run\<close>

lemma invocations_append: "invocations (es @ fs) = invocations es @ invocations fs"
  by (induction es rule: invocations.induct) simp_all

lemma requests_append: "requests (es @ fs) = requests es @ requests fs"
  by (induction es rule: requests.induct) simp_all

lemma waits_append: "waits (es @ fs) = waits es @ waits fs"
  by (induction es rule: waits.induct) simp_all

lemma fetchAll_never_throws:
  "snd (fetchAll url apiKey qp fl offset results retries delay script) \<noteq> Threw e"
proof (induction script arbitrary: offset results retries delay)
  case Nil
  show ?case by simp
next
  case (Cons r script)
  show ?case
    using Cons.IH fetch_step_no_throw [of retries results r]
    by (cases "fetch_step retries results r") (simp_all add: emit_def)
qed

text \<open>
  The arguments of invocation \<open>k\<close>: the offset has advanced by the page limit for every page
  before it, the budget has gone down by one and the delay has doubled for every rate-limit
  reply before it.
\<close>

lemma invocations_nth:
  "k < length (invocations (fst (fetchAll url apiKey qp fl offset results retries delay script))) \<Longrightarrow>
   invocations (fst (fetchAll url apiKey qp fl offset results retries delay script)) ! k =
     (offset + page_limit qp * int (pages_before k script),
      retries - int (retries_before k script),
      delay * 2 ^ retries_before k script)"
proof (induction script arbitrary: offset results retries delay k)
  case Nil
  then show ?case by (simp add: pages_before_def retries_before_def)
next
  case (Cons r script)
  show ?case
  proof (cases k)
    case 0
    then show ?thesis
      by (cases "fetch_step retries results r")
         (simp_all add: emit_def pages_before_def retries_before_def)
  next
    case (Suc j)
    show ?thesis
    proof (cases r rule: reply_kinds)
      case rate_limited
      show ?thesis
      proof (cases "0 < retries")
        case True
        with rate_limited Cons.prems Suc
        have "j < length (invocations (fst (fetchAll url apiKey qp fl offset results
                 (retries - 1) (delay * 2) script)))"
          by (simp add: fetch_step_429_retry emit_def)
        from Cons.IH [OF this] rate_limited True Suc show ?thesis
          by (simp add: fetch_step_429_retry emit_def pages_before_def retries_before_def)
      next
        case False
        with rate_limited Cons.prems Suc show ?thesis
          by (simp add: fetch_step_429_exhausted)
      qed
    next
      case page
      show ?thesis
      proof (cases "reports_last r")
        case True
        with page Cons.prems Suc show ?thesis by (simp add: fetch_step_page)
      next
        case False
        with page Cons.prems Suc
        have "j < length (invocations (fst (fetchAll url apiKey qp fl (offset + page_limit qp)
                 (results @ page_rows r) retries delay script)))"
          by (simp add: fetch_step_page emit_def)
        from Cons.IH [OF this] page False Suc show ?thesis
          by (simp add: fetch_step_page emit_def pages_before_def retries_before_def
                algebra_simps)
      qed
    next
      case failure
      with Cons.prems Suc show ?thesis by (simp add: fetch_step_failure)
    qed
  qed
qed

lemma length_invocations:
  "length (invocations (fst (fetchAll url apiKey qp fl offset results retries delay script)))
     \<le> Suc (length script)"
proof (induction script arbitrary: offset results retries delay)
  case Nil
  show ?case by simp
next
  case (Cons r script)
  show ?case
  proof (cases "fetch_step retries results r")
    case Retry
    with Cons.IH [of offset results "retries - 1" "delay * 2"] show ?thesis
      by (simp add: emit_def)
  next
    case (NextPage rs)
    with Cons.IH [of "offset + page_limit qp" rs retries delay] show ?thesis
      by (simp add: emit_def)
  qed simp_all
qed

lemma requests_invocations:
  "requests (fst (fetchAll url apiKey qp fl offset results retries delay script)) =
   map (\<lambda>(a, b, c). fetch_request url apiKey qp fl a)
     (invocations (fst (fetchAll url apiKey qp fl offset results retries delay script)))"
proof (induction script arbitrary: offset results retries delay)
  case Nil
  show ?case by simp
next
  case (Cons r script)
  show ?case
    using Cons.IH
    by (cases "fetch_step retries results r")
       (simp_all add: emit_def requests_append invocations_append)
qed

lemma offset_param:
  "map_of (search_params qp fl offset) ''offset'' = Some (js_String (JNum offset))"
  by (simp add: search_params_def Let_def map_of_map update_conv')

lemma page_counts:
  "\<forall>r\<in>set rs. is_page r \<longrightarrow> int (length (page_rows r)) = lim \<Longrightarrow>
   (\<Sum>r\<leftarrow>rs. int (length (page_rows r))) = lim * int (length (filter is_page rs))"
  by (induction rs) (auto simp: page_rows_not_page algebra_simps)

lemma waits_doubling:
  "waits (fst (fetchAll url apiKey qp fl offset results retries delay script)) =
   map (\<lambda>k. delay * 2 ^ k)
     [0..<length (waits (fst (fetchAll url apiKey qp fl offset results retries delay script)))]"
proof (induction script arbitrary: offset results retries delay)
  case Nil
  show ?case by simp
next
  case (Cons r script)
  show ?case
  proof (cases "fetch_step retries results r")
    case Retry
    have "waits (fst (fetchAll url apiKey qp fl offset results (retries - 1) (delay * 2) script)) =
      map (\<lambda>k. (delay * 2) * 2 ^ k)
        [0..<length (waits (fst (fetchAll url apiKey qp fl offset results (retries - 1)
                                   (delay * 2) script)))]"
      by (rule Cons.IH)
    with Retry show ?thesis
      by (simp add: emit_def waits_append map_upt_Suc del: upt_Suc) (simp add: mult.assoc)
  next
    case (NextPage rs)
    with Cons.IH [of "offset + page_limit qp" rs retries delay] show ?thesis
      by (simp add: emit_def waits_append)
  qed simp_all
qed

lemma sorted_doubling: "0 \<le> (d::int) \<Longrightarrow> sorted (map (\<lambda>k. d * 2 ^ k) [0..<n])"
  by (auto simp: sorted_iff_nth_mono intro!: mult_left_mono power_increasing)

lemma strict_doubling: "0 < (d::int) \<Longrightarrow> sorted_wrt (<) (map (\<lambda>k. d * 2 ^ k) [0..<n])"
  by (auto simp: sorted_wrt_iff_nth_less intro!: power_strict_increasing)

lemma fetchAll_concat:
  assumes "script \<noteq> []" "\<forall>r\<in>set script. is_page r"
    and "\<forall>r\<in>set (butlast script). \<not> reports_last r" "reports_last (last script)"
  shows "snd (fetchAll url apiKey qp fl offset results retries delay script) =
         Returned (results @ concat (map page_rows script))"
  using assms
proof (induction script arbitrary: offset results)
  case Nil
  then show ?case by simp
next
  case (Cons r script)
  show ?case
  proof (cases "script = []")
    case True
    with Cons.prems show ?thesis by (simp add: fetch_step_page)
  next
    case False
    with Cons.prems have "\<not> reports_last r" "is_page r" by auto
    moreover from False Cons.prems
    have "snd (fetchAll url apiKey qp fl (offset + page_limit qp) (results @ page_rows r)
                 retries delay script)
        = Returned ((results @ page_rows r) @ concat (map page_rows script))"
      by (intro Cons.IH) auto
    ultimately show ?thesis by (simp add: fetch_step_page emit_def)
  qed
qed

lemma fetchAll_stops_at_error:
  assumes "\<forall>r\<in>set pre. is_429 r \<or> (is_page r \<and> \<not> reports_last r)"
    and "int (length (filter is_429 pre)) \<le> max 0 retries"
    and "is_failure e \<or> (is_429 e \<and> retries \<le> int (length (filter is_429 pre)))"
  shows "snd (fetchAll url apiKey qp fl offset results retries delay (pre @ e # rest)) =
         Returned (results @ concat (map page_rows pre))"
  using assms
proof (induction pre arbitrary: offset results retries delay)
  case Nil
  then show ?case
    by (auto simp: fetch_step_failure fetch_step_429_exhausted)
next
  case (Cons r pre)
  show ?case
  proof (cases "is_429 r")
    case True
    with Cons.prems have pos: "0 < retries" by simp
    have "snd (fetchAll url apiKey qp fl offset results (retries - 1) (delay * 2)
                 (pre @ e # rest)) =
          Returned (results @ concat (map page_rows pre))"
      using Cons.prems True by (intro Cons.IH) auto
    with True pos show ?thesis
      by (simp add: fetch_step_429_retry emit_def page_rows_not_page is_429_not_page)
  next
    case False
    with Cons.prems have pg: "is_page r" "\<not> reports_last r" by auto
    have "snd (fetchAll url apiKey qp fl (offset + page_limit qp) (results @ page_rows r)
                 retries delay (pre @ e # rest)) =
          Returned ((results @ page_rows r) @ concat (map page_rows pre))"
      using Cons.prems False by (intro Cons.IH) auto
    with pg show ?thesis
      by (simp add: fetch_step_page emit_def)
  qed
qed

section \<open>Properties of the paged fetcher\<close>

text \<open>
  C1. When every reply is a page, every page but the last reports
  \<^verbatim>\<open>isLastPage = false\<close> and the last one reports \<^verbatim>\<open>isLastPage = true\<close>, the call
  \<^verbatim>\<open>fetchAll(url, apiKey, queryParams, fields, 0, [], retries, delay)\<close> of \<^verbatim>\<open>load\<close> returns the
  record lists of the pages, concatenated in page order.
\<close>

theorem fetchAll_returns_pages_in_order:
  assumes "script \<noteq> []"
    and "\<forall>r\<in>set script. is_page r"
    and "\<forall>r\<in>set (butlast script). \<not> reports_last r"
    and "reports_last (last script)"
  shows "snd (fetchAll url apiKey qp fl 0 [] retries delay script) =
         Returned (concat (map page_rows script))"
  using fetchAll_concat [OF assms, of url apiKey qp fl 0 "[]" retries delay] by simp

theorem fetchAll_returns_pages_in_order_witness:
  "snd (fetchAll ''u'' ''k'' \<lparr>qp_limit = None, qp_other = []\<rparr> [] 0 [] 10 2000
         [page [[(''Id'', JNum 1)], [(''Id'', JNum 2)]] False, page [[(''Id'', JNum 3)]] True])
     = Returned [[(''Id'', JNum 1)], [(''Id'', JNum 2)], [(''Id'', JNum 3)]]"
  using fetchAll_returns_pages_in_order
    [of "[page [[(''Id'', JNum 1)], [(''Id'', JNum 2)]] False, page [[(''Id'', JNum 3)]] True]"
        "''u''" "''k''" "\<lparr>qp_limit = None, qp_other = []\<rparr>" "[]" 10 2000]
  by (simp add: page_def)

text \<open>
  C2 as stated fails. With no \<^verbatim>\<open>limit\<close> configured, a first page of one record that is not
  the last page is followed by a request with \<^verbatim>\<open>offset=100\<close>, while the record count so far
  is 1: line 126 advances the offset by \<^verbatim>\<open>queryParams.limit || 100\<close>, not by the length of
  the list received.
\<close>

theorem offset_is_not_record_count_counterexample:
  "map_of (req_params (requests (fst (fetchAll ''u'' ''k'' \<lparr>qp_limit = None, qp_other = []\<rparr> [] 0 []
       10 2000 [page [[(''Id'', JNum 1)]] False, page [[(''Id'', JNum 2)]] True])) ! 1)) ''offset''
     = Some ''100'' \<and>
   js_String (JNum (\<Sum>r\<leftarrow>[page [[(''Id'', JNum 1)]] False]. int (length (page_rows r)))) = ''1''"
  by (simp add: page_def fetch_step_def try_body_def emit_def fetch_request_def search_params_def
        page_limit_def query_entries_def number_to_string_def digits.simps)

text \<open>
  C2, amended. The \<^verbatim>\<open>offset\<close> parameter of request \<open>k\<close> of a run is the starting offset plus
  the page limit (\<^verbatim>\<open>queryParams.limit || 100\<close>) times the number of pages received before it;
  a retry after a 429 sends the same offset again. It is the sum of the record counts of the
  pages before it when each of them held exactly as many records as the page limit.
\<close>

theorem offset_advances_by_page_limit:
  assumes "k < length (requests (fst (fetchAll url apiKey qp fl offset results retries delay script)))"
  shows "map_of (req_params (requests (fst (fetchAll url apiKey qp fl offset results retries delay
            script)) ! k)) ''offset''
         = Some (js_String (JNum (offset + page_limit qp * int (pages_before k script)))) \<and>
         ((\<forall>r\<in>set (take k script). is_page r \<longrightarrow> int (length (page_rows r)) = page_limit qp) \<longrightarrow>
          map_of (req_params (requests (fst (fetchAll url apiKey qp fl offset results retries delay
            script)) ! k)) ''offset''
          = Some (js_String (JNum (offset + (\<Sum>r\<leftarrow>take k script. int (length (page_rows r)))))))"
proof -
  let ?tr = "fst (fetchAll url apiKey qp fl offset results retries delay script)"
  from assms have k: "k < length (invocations ?tr)"
    by (simp add: requests_invocations)
  have "requests ?tr ! k = (\<lambda>(a, b, c). fetch_request url apiKey qp fl a) (invocations ?tr ! k)"
    using k by (simp add: requests_invocations)
  also have "\<dots> = fetch_request url apiKey qp fl (offset + page_limit qp * int (pages_before k script))"
    by (simp add: invocations_nth [OF k])
  finally have first: "map_of (req_params (requests ?tr ! k)) ''offset''
      = Some (js_String (JNum (offset + page_limit qp * int (pages_before k script))))"
    by (simp add: fetch_request_def offset_param)
  show ?thesis
    using first page_counts [of "take k script" "page_limit qp"]
    by (simp add: pages_before_def)
qed

theorem offset_advances_by_page_limit_witness:
  "map_of (req_params (requests (fst (fetchAll ''u'' ''k'' \<lparr>qp_limit = Some 2, qp_other = []\<rparr> [] 0 []
       10 2000 [page [[(''Id'', JNum 1)], [(''Id'', JNum 2)]] False, page [[(''Id'', JNum 3)]] True])) ! 1))
     ''offset'' = Some ''2''"
  using offset_advances_by_page_limit [of 1 "''u''" "''k''" "\<lparr>qp_limit = Some 2, qp_other = []\<rparr>" "[]" 0 "[]"
       10 2000 "[page [[(''Id'', JNum 1)], [(''Id'', JNum 2)]] False, page [[(''Id'', JNum 3)]] True]"]
  by (simp add: page_def fetch_step_def try_body_def emit_def page_limit_def pages_before_def
        number_to_string_def digits.simps)

text \<open>
  C3 as stated fails. With a budget of one retry, a 429 on the first page uses it up; the
  first page then succeeds, and the invocation for the second page is entered with budget 0
  and the doubled delay, not with the original budget 1 and delay 2000. A 429 on the second
  page therefore ends the run with the first page's records only.
\<close>

theorem retry_budget_not_restored_counterexample:
  "invocations (fst (fetchAll ''u'' ''k'' \<lparr>qp_limit = None, qp_other = []\<rparr> [] 0 [] 1 2000
       [Rejected (Some 429), page [[(''Id'', JNum 1)]] False, Rejected (Some 429),
        page [[(''Id'', JNum 2)]] True]))
     = [(0, 1, 2000), (0, 0, 4000), (100, 0, 4000)] \<and>
   snd (fetchAll ''u'' ''k'' \<lparr>qp_limit = None, qp_other = []\<rparr> [] 0 [] 1 2000
       [Rejected (Some 429), page [[(''Id'', JNum 1)]] False, Rejected (Some 429),
        page [[(''Id'', JNum 2)]] True])
     = Returned [[(''Id'', JNum 1)]]"
  by (simp add: page_def fetch_step_def try_body_def catch_clause_def emit_def page_limit_def)

text \<open>
  C3, amended. After a page that is not the last one, the next page is requested with the
  retry budget and the delay of the current invocation, unchanged (line 126 passes
  \<^verbatim>\<open>retries\<close> and \<^verbatim>\<open>delay\<close> on). These are the original budget less the number of 429 replies
  retried so far in the whole run, and the original delay doubled that many times, as they
  are at every request of the run: the budget is cumulative over the paginated fetch.
\<close>

theorem retry_budget_carried_to_next_page:
  assumes "Suc k < length (invocations (fst (fetchAll url apiKey qp fl offset results retries delay script)))"
    and "is_page (script ! k)"
  shows "snd (invocations (fst (fetchAll url apiKey qp fl offset results retries delay script)) ! Suc k)
         = snd (invocations (fst (fetchAll url apiKey qp fl offset results retries delay script)) ! k) \<and>
         snd (invocations (fst (fetchAll url apiKey qp fl offset results retries delay script)) ! Suc k)
         = (retries - int (retries_before k script), delay * 2 ^ retries_before k script) \<and>
         (\<forall>j. j < length (invocations (fst (fetchAll url apiKey qp fl offset results retries delay
                  script))) \<longrightarrow>
            snd (invocations (fst (fetchAll url apiKey qp fl offset results retries delay script)) ! j)
            = (retries - int (retries_before j script), delay * 2 ^ retries_before j script))"
proof -
  let ?tr = "fst (fetchAll url apiKey qp fl offset results retries delay script)"
  from assms(1) length_invocations [of url apiKey qp fl offset results retries delay script]
  have len: "k < length script" by simp
  from assms(2) have "\<not> is_429 (script ! k)"
    using is_429_not_page by blast
  with len have same: "retries_before (Suc k) script = retries_before k script"
    by (simp add: retries_before_def take_Suc_conv_app_nth)
  from assms(1) have "k < length (invocations ?tr)" by simp
  from invocations_nth [OF assms(1)] invocations_nth [OF this] same
  have after_page:
    "snd (invocations ?tr ! Suc k) = snd (invocations ?tr ! k) \<and>
     snd (invocations ?tr ! Suc k)
       = (retries - int (retries_before k script), delay * 2 ^ retries_before k script)"
    by simp
  have anywhere: "\<forall>j. j < length (invocations ?tr) \<longrightarrow>
      snd (invocations ?tr ! j)
        = (retries - int (retries_before j script), delay * 2 ^ retries_before j script)"
    by (simp add: invocations_nth)
  from after_page anywhere show ?thesis by blast
qed

theorem retry_budget_carried_to_next_page_witness:
  "snd (invocations (fst (fetchAll ''u'' ''k'' \<lparr>qp_limit = None, qp_other = []\<rparr> [] 0 [] 1 2000
       [Rejected (Some 429), page [[(''Id'', JNum 1)]] False, Rejected (Some 429),
        page [[(''Id'', JNum 2)]] True])) ! 2) = (0, 4000)"
  using retry_budget_carried_to_next_page [of 1 "''u''" "''k''" "\<lparr>qp_limit = None, qp_other = []\<rparr>" "[]" 0 "[]"
       1 2000 "[Rejected (Some 429), page [[(''Id'', JNum 1)]] False, Rejected (Some 429),
        page [[(''Id'', JNum 2)]] True]"]
  by (simp add: page_def fetch_step_def try_body_def catch_clause_def emit_def page_limit_def
        retries_before_def)

text \<open>
  C4. Let the replies \<open>pre\<close> be pages that are not the last one and 429 replies that the
  budget still covers, followed by a reply \<open>e\<close> that is either a failure other than 429 or a
  429 (as a response status or as a thrown error) arriving when the budget is used up. Then
  \<^verbatim>\<open>fetchAll\<close> returns, without throwing, exactly the records of the pages in \<open>pre\<close>, in
  order, whatever the server would have replied afterwards.
\<close>

theorem fetchAll_returns_accumulated_on_error:
  assumes "\<forall>r\<in>set pre. is_429 r \<or> (is_page r \<and> \<not> reports_last r)"
    and "int (length (filter is_429 pre)) \<le> max 0 retries"
    and "is_failure e \<or> (is_429 e \<and> retries \<le> int (length (filter is_429 pre)))"
  shows "snd (fetchAll url apiKey qp fl 0 [] retries delay (pre @ e # rest)) =
         Returned (concat (map page_rows pre))"
  using fetchAll_stops_at_error [OF assms, of url apiKey qp fl 0 "[]" delay rest] by simp

theorem fetchAll_returns_accumulated_on_error_witness:
  "snd (fetchAll ''u'' ''k'' \<lparr>qp_limit = None, qp_other = []\<rparr> [] 0 [] 1 2000
     ([page [[(''Id'', JNum 1)]] False, Rejected (Some 429)] @ Resolved 429 None #
      [page [[(''Id'', JNum 2)]] True]))
   = Returned [[(''Id'', JNum 1)]]"
  using fetchAll_returns_accumulated_on_error
    [of "[page [[(''Id'', JNum 1)]] False, Rejected (Some 429)]" 1 "Resolved 429 None"
        "''u''" "''k''" "\<lparr>qp_limit = None, qp_other = []\<rparr>" "[]" 2000 "[page [[(''Id'', JNum 2)]] True]"]
  by (simp add: page_def)

text \<open>
  C5. The durations passed to the wait primitive in a run are, in order, the configured
  delay, twice that, four times that, and so on: wait number \<open>k\<close> (from 0) lasts
  \<open>delay * 2 ^ k\<close>. A 429 that is retried waits the delay of its invocation and calls
  \<^verbatim>\<open>fetchAll\<close> with the delay doubled. The waits never decrease when the delay is not
  negative, and they increase strictly when it is positive.
\<close>

theorem backoff_delays_double:
  "waits (fst (fetchAll url apiKey qp fl offset results retries delay script)) =
     map (\<lambda>k. delay * 2 ^ k)
       [0..<length (waits (fst (fetchAll url apiKey qp fl offset results retries delay script)))] \<and>
   (is_429 r \<and> 0 < retries \<longrightarrow>
      waits (fst (fetchAll url apiKey qp fl offset results retries delay (r # script))) =
        delay # waits (fst (fetchAll url apiKey qp fl offset results (retries - 1) (delay * 2) script))) \<and>
   (0 \<le> delay \<longrightarrow> sorted (waits (fst (fetchAll url apiKey qp fl offset results retries delay script)))) \<and>
   (0 < delay \<longrightarrow>
      sorted_wrt (<) (waits (fst (fetchAll url apiKey qp fl offset results retries delay script))))"
proof -
  let ?ws = "waits (fst (fetchAll url apiKey qp fl offset results retries delay script))"
  have shape: "?ws = map (\<lambda>k. delay * 2 ^ k) [0..<length ?ws]"
    by (rule waits_doubling)
  have first: "is_429 r \<and> 0 < retries \<longrightarrow>
      waits (fst (fetchAll url apiKey qp fl offset results retries delay (r # script))) =
        delay # waits (fst (fetchAll url apiKey qp fl offset results (retries - 1) (delay * 2) script))"
    by (simp add: fetch_step_429_retry emit_def waits_append)
  have mono: "0 \<le> delay \<longrightarrow> sorted ?ws"
    using sorted_doubling [of delay "length ?ws"] shape by simp
  have strict: "0 < delay \<longrightarrow> sorted_wrt (<) ?ws"
    using strict_doubling [of delay "length ?ws"] shape by simp
  from shape first mono strict show ?thesis by blast
qed

theorem backoff_delays_double_witness:
  "waits (fst (fetchAll ''u'' ''k'' \<lparr>qp_limit = None, qp_other = []\<rparr> [] 0 [] 10 2000
      [Rejected (Some 429), Resolved 429 None, page [[(''Id'', JNum 1)]] False,
       Rejected (Some 429), page [[(''Id'', JNum 2)]] True])) = [2000, 4000, 8000]"
  using backoff_delays_double [of "''u''" "''k''" "\<lparr>qp_limit = None, qp_other = []\<rparr>" "[]" 0 "[]" 10 2000
      "[Resolved 429 None, page [[(''Id'', JNum 1)]] False,
       Rejected (Some 429), page [[(''Id'', JNum 2)]] True]" "Rejected (Some 429)"]
  by (simp add: page_def fetch_step_def try_body_def catch_clause_def emit_def)

text \<open>
  C9 as stated fails. A page with an empty list that reports \<^verbatim>\<open>isLastPage = false\<close> does not
  end the pagination: \<^verbatim>\<open>fetchAll\<close> sends a second request and returns the record of the
  second page.
\<close>

theorem empty_page_continues_counterexample:
  "page_rows (page [] False) = [] \<and>
   snd (fetchAll ''u'' ''k'' \<lparr>qp_limit = None, qp_other = []\<rparr> [] 0 [] 10 2000
         [page [] False, page [[(''Id'', JNum 1)]] True]) = Returned [[(''Id'', JNum 1)]] \<and>
   length (requests (fst (fetchAll ''u'' ''k'' \<lparr>qp_limit = None, qp_other = []\<rparr> [] 0 [] 10 2000
         [page [] False, page [[(''Id'', JNum 1)]] True]))) = 2"
  by (simp add: page_def fetch_step_def try_body_def emit_def)

text \<open>
  C9, amended. A response whose record list is absent or empty makes \<^verbatim>\<open>fetchAll\<close> neither
  throw nor add a record. It ends the pagination, with the records accumulated so far as the
  result, when it reports \<^verbatim>\<open>isLastPage\<close> truthy; otherwise the next page is requested, as
  after any other page.
\<close>

theorem empty_page_adds_nothing:
  assumes "is_page r" and "page_rows r = []"
  shows "snd (fetchAll url apiKey qp fl offset results retries delay (r # script)) =
     (if reports_last r then Returned results
      else snd (fetchAll url apiKey qp fl (offset + page_limit qp) results retries delay script)) \<and>
     (\<forall>e. snd (fetchAll url apiKey qp fl offset results retries delay (r # script)) \<noteq> Threw e)"
  using assms fetchAll_never_throws [of url apiKey qp fl offset results retries delay "r # script"]
  by (simp add: fetch_step_page emit_def)

theorem empty_page_adds_nothing_witness:
  "snd (fetchAll ''u'' ''k'' \<lparr>qp_limit = None, qp_other = []\<rparr> [] 100 [[(''Id'', JNum 1)]] 10 2000
         [Resolved 200 (Some \<lparr>list = None, pageInfo = Some \<lparr>isLastPage = True\<rparr>\<rparr>)])
     = Returned [[(''Id'', JNum 1)]]"
  using empty_page_adds_nothing [of "Resolved 200 (Some \<lparr>list = None, pageInfo = Some \<lparr>isLastPage = True\<rparr>\<rparr>)"
      "''u''" "''k''" "\<lparr>qp_limit = None, qp_other = []\<rparr>" "[]" 100 "[[(''Id'', JNum 1)]]" 10 2000 "[]"]
  by simp

section \<open>Properties of the ingest pipeline\<close>

lemma load_items_fold:
  "fst (load_items ld parseData items store) = fold store_set (writes ld parseData items) store"
  by (induction items arbitrary: store) (auto simp: Let_def split: sum.splits)

lemma load_items_error:
  "snd (load_items ld parseData items store) = snd (load_items ld parseData items store')"
  by (induction items arbitrary: store store') (auto simp: Let_def split: sum.splits)

lemma update_swap_present:
  "k \<noteq> k' \<Longrightarrow> k' \<in> fst ` set t \<Longrightarrow>
   AList.update k v (AList.update k' v' t) = AList.update k' v' (AList.update k v t)"
  by (induction t) auto

lemma store_set_twice: "store_set e (store_set e t) = store_set e t"
  by (simp add: store_set_def)

lemma store_set_swap:
  "entry_id e \<noteq> entry_id e' \<Longrightarrow> entry_id e' \<in> fst ` set t \<Longrightarrow>
   store_set e (store_set e' t) = store_set e' (store_set e t)"
  unfolding store_set_def by (rule update_swap_present)

lemma keys_store_set: "fst ` set (store_set e t) = insert (entry_id e) (fst ` set t)"
  by (simp add: store_set_def dom_update)

lemma keys_fold_store_set:
  "fst ` set (fold store_set es s) = entry_id ` set es \<union> fst ` set s"
  by (induction es arbitrary: s) (auto simp: keys_store_set)

lemma fold_store_set_congruent:
  "store_set e t1 = store_set e t2 \<Longrightarrow> entry_id ` set es \<subseteq> fst ` set t1 \<Longrightarrow>
   store_set e (fold store_set es t1) = store_set e (fold store_set es t2)"
proof (induction es arbitrary: t1 t2)
  case Nil
  then show ?case by simp
next
  case (Cons x es)
  have keys: "insert (entry_id e) (fst ` set t1) = insert (entry_id e) (fst ` set t2)"
    using arg_cong [OF Cons.prems(1), of "\<lambda>t. fst ` set t"] by (simp add: keys_store_set)
  have step: "store_set e (store_set x t1) = store_set e (store_set x t2)"
  proof (cases "entry_id x = entry_id e")
    case True
    then have "store_set e (store_set x t) = store_set e t" for t
      by (simp add: store_set_def)
    with Cons.prems(1) show ?thesis by simp
  next
    case False
    from Cons.prems(2) have in1: "entry_id x \<in> fst ` set t1" by simp
    with keys False have in2: "entry_id x \<in> fst ` set t2" by blast
    have "store_set e (store_set x t1) = store_set x (store_set e t1)"
      using False in1 by (intro store_set_swap) auto
    also have "\<dots> = store_set x (store_set e t2)"
      using Cons.prems(1) by simp
    also have "\<dots> = store_set e (store_set x t2)"
      using False in2 by (intro store_set_swap [symmetric]) auto
    finally show ?thesis .
  qed
  have sub: "entry_id ` set es \<subseteq> fst ` set (store_set x t1)"
    using Cons.prems(2) by (auto simp: keys_store_set)
  from Cons.IH [OF step sub] show ?case by simp
qed

lemma fold_store_set_idem:
  "fold store_set es (fold store_set es s) = fold store_set es s"
proof (induction es rule: rev_induct)
  case Nil
  show ?case by simp
next
  case (snoc e es)
  let ?T = "fold store_set es s"
  have "fold store_set (es @ [e]) (fold store_set (es @ [e]) s) =
        store_set e (fold store_set es (store_set e ?T))"
    by simp
  also have "\<dots> = store_set e (fold store_set es ?T)"
    by (rule fold_store_set_congruent) (auto simp: store_set_twice keys_store_set keys_fold_store_set)
  also have "\<dots> = store_set e ?T"
    by (simp only: snoc.IH)
  also have "\<dots> = fold store_set (es @ [e]) s"
    by simp
  finally show ?case .
qed

lemma item_id_cases:
  "item_id m =
     (if truthy (get_prop m ''Id'') then js_String (get_prop m ''Id'')
      else if truthy (get_prop m ''id'') then js_String (get_prop m ''id'')
      else ''unknown'')"
  by (simp add: item_id_def js_or_def)

lemma load_items_single:
  "parseData (item_id (mapped_item ld rawItem)) (mapped_item ld rawItem) = Inr parsed \<Longrightarrow>
   fst (load_items ld parseData [rawItem] store) =
     store_set (store_entry (ld_bodyField ld) (item_id (mapped_item ld rawItem)) parsed) store"
  by (simp add: Let_def)

text \<open>
  C6. Running the loop of \<^verbatim>\<open>load\<close> over the same records a second time, on the store the
  first run left, gives the store of the first run again (same entries, same order, nothing
  added) and ends the same way. So does a second \<^verbatim>\<open>load\<close> that receives the same replies.
  The validation \<^verbatim>\<open>parseData\<close> is a function of the id and the record.
\<close>

theorem load_is_idempotent:
  "load_items ld parseData items (fst (load_items ld parseData items store)) =
     load_items ld parseData items store \<and>
   (load ld parseData script store = Some (store', err) \<longrightarrow>
      load ld parseData script store' = Some (store', err))"
proof -
  have idem: "load_items ld parseData xs (fst (load_items ld parseData xs st)) =
        load_items ld parseData xs st" for xs st
  proof (rule prod_eqI)
    show "fst (load_items ld parseData xs (fst (load_items ld parseData xs st))) =
          fst (load_items ld parseData xs st)"
      by (simp add: load_items_fold fold_store_set_idem)
    show "snd (load_items ld parseData xs (fst (load_items ld parseData xs st))) =
          snd (load_items ld parseData xs st)"
      by (rule load_items_error)
  qed
  have again: "load ld parseData script store' = Some (store', err)"
    if run: "load ld parseData script store = Some (store', err)"
  proof (cases "snd (fetchAll (ld_url ld) (ld_apiKey ld) (ld_queryParams ld) (ld_fields ld) 0 []
                       (ld_retries ld) (ld_delay ld) script)")
    case (Returned xs)
    with run have first: "load_items ld parseData xs store = (store', err)"
      by (simp add: load_def)
    have "load_items ld parseData xs store' = (store', err)"
      using idem [of xs store] by (simp only: first fst_conv)
    with Returned show ?thesis by (simp add: load_def)
  next
    case (Threw e)
    with run show ?thesis by (simp add: load_def)
  next
    case Pending
    with run show ?thesis by (simp add: load_def)
  qed
  from idem [of items store] again show ?thesis by blast
qed

theorem load_is_idempotent_witness:
  "load \<lparr>ld_name = ''nocodb-posts'', ld_url = ''u'', ld_apiKey = ''k'',
      ld_queryParams = \<lparr>qp_limit = None, qp_other = []\<rparr>, ld_bodyField = ''content'',
      ld_fields = [], ld_mapper = None, ld_retries = 10, ld_delay = 2000\<rparr>
     (\<lambda>i d. Inr d) [page [[(''Id'', JNum 1), (''content'', JStr ''a'')], [(''Id'', JNum 2)],
      [(''Id'', JNum 1), (''content'', JStr ''b'')]] True] []
   = Some ([(''1'', \<lparr>entry_id = ''1'', entry_data = [(''Id'', JNum 1)],
               entry_body = Some (JStr ''b'')\<rparr>),
      (''2'', \<lparr>entry_id = ''2'', entry_data = [(''Id'', JNum 2)], entry_body = None\<rparr>)], None) \<and>
   load \<lparr>ld_name = ''nocodb-posts'', ld_url = ''u'', ld_apiKey = ''k'',
      ld_queryParams = \<lparr>qp_limit = None, qp_other = []\<rparr>, ld_bodyField = ''content'',
      ld_fields = [], ld_mapper = None, ld_retries = 10, ld_delay = 2000\<rparr>
     (\<lambda>i d. Inr d) [page [[(''Id'', JNum 1), (''content'', JStr ''a'')], [(''Id'', JNum 2)],
      [(''Id'', JNum 1), (''content'', JStr ''b'')]] True]
     [(''1'', \<lparr>entry_id = ''1'', entry_data = [(''Id'', JNum 1)],
               entry_body = Some (JStr ''b'')\<rparr>),
      (''2'', \<lparr>entry_id = ''2'', entry_data = [(''Id'', JNum 2)], entry_body = None\<rparr>)]
   = Some ([(''1'', \<lparr>entry_id = ''1'', entry_data = [(''Id'', JNum 1)],
               entry_body = Some (JStr ''b'')\<rparr>),
      (''2'', \<lparr>entry_id = ''2'', entry_data = [(''Id'', JNum 2)], entry_body = None\<rparr>)], None)"
proof -
  have first: "load \<lparr>ld_name = ''nocodb-posts'', ld_url = ''u'', ld_apiKey = ''k'',
      ld_queryParams = \<lparr>qp_limit = None, qp_other = []\<rparr>, ld_bodyField = ''content'',
      ld_fields = [], ld_mapper = None, ld_retries = 10, ld_delay = 2000\<rparr>
     (\<lambda>i d. Inr d) [page [[(''Id'', JNum 1), (''content'', JStr ''a'')], [(''Id'', JNum 2)],
      [(''Id'', JNum 1), (''content'', JStr ''b'')]] True] []
   = Some ([(''1'', \<lparr>entry_id = ''1'', entry_data = [(''Id'', JNum 1)],
               entry_body = Some (JStr ''b'')\<rparr>),
      (''2'', \<lparr>entry_id = ''2'', entry_data = [(''Id'', JNum 2)], entry_body = None\<rparr>)], None)"
    by (simp add: load_def page_def fetch_step_def try_body_def mapped_item_def item_id_def
          js_or_def get_prop_def store_entry_def store_set_def number_to_string_def
          digits.simps AList.delete_eq Let_def)
  from load_is_idempotent
    [of "\<lparr>ld_name = ''nocodb-posts'', ld_url = ''u'', ld_apiKey = ''k'',
      ld_queryParams = \<lparr>qp_limit = None, qp_other = []\<rparr>, ld_bodyField = ''content'',
      ld_fields = [], ld_mapper = None, ld_retries = 10, ld_delay = 2000\<rparr>" "\<lambda>i d. Inr d" "[]" "[]" "[page [[(''Id'', JNum 1), (''content'', JStr ''a'')], [(''Id'', JNum 2)],
      [(''Id'', JNum 1), (''content'', JStr ''b'')]] True]" "[(''1'', \<lparr>entry_id = ''1'', entry_data = [(''Id'', JNum 1)],
               entry_body = Some (JStr ''b'')\<rparr>),
      (''2'', \<lparr>entry_id = ''2'', entry_data = [(''Id'', JNum 2)], entry_body = None\<rparr>)]" None] first
  show ?thesis by blast
qed

text \<open>
  C7 as stated fails. A record whose \<^verbatim>\<open>Id\<close> is present and not null but falsy (the number
  0, or the empty string that the example mapper's \<^verbatim>\<open>toString\<close> gives a record without
  \<^verbatim>\<open>Id\<close>) does not get \<^verbatim>\<open>String(Id)\<close> as its id: \<^verbatim>\<open>||\<close> passes over it, here down to
  \<^verbatim>\<open>'unknown'\<close>.
\<close>

theorem falsy_Id_counterexample:
  "map_of [(''Id'', JNum 0)] ''Id'' = Some (JNum 0) \<and>
   js_String (JNum 0) = ''0'' \<and>
   item_id [(''Id'', JNum 0)] = ''unknown'' \<and>
   map_of [(''Id'', JStr [])] ''Id'' = Some (JStr []) \<and>
   js_String (JStr []) = [] \<and>
   item_id [(''Id'', JStr [])] = ''unknown''"
  by (simp add: item_id_def js_or_def get_prop_def number_to_string_def digits.simps)

text \<open>
  C7, amended. The entry of a mapped record is stored under \<^verbatim>\<open>String(Id)\<close> when its \<^verbatim>\<open>Id\<close>
  is truthy; otherwise under \<^verbatim>\<open>String(id)\<close> when its \<^verbatim>\<open>id\<close> is truthy; otherwise under
  \<^verbatim>\<open>unknown\<close>. A record with neither field is therefore stored under \<^verbatim>\<open>unknown\<close>.
\<close>

theorem entry_id_from_truthy_Id:
  assumes "parseData (item_id (mapped_item ld rawItem)) (mapped_item ld rawItem) = Inr parsed"
  shows "fst (load_items ld parseData [rawItem] store) =
           store_set (store_entry (ld_bodyField ld)
             (if truthy (get_prop (mapped_item ld rawItem) ''Id'')
              then js_String (get_prop (mapped_item ld rawItem) ''Id'')
              else if truthy (get_prop (mapped_item ld rawItem) ''id'')
              then js_String (get_prop (mapped_item ld rawItem) ''id'')
              else ''unknown'') parsed) store \<and>
         entry_id (store_entry (ld_bodyField ld)
             (if truthy (get_prop (mapped_item ld rawItem) ''Id'')
              then js_String (get_prop (mapped_item ld rawItem) ''Id'')
              else if truthy (get_prop (mapped_item ld rawItem) ''id'')
              then js_String (get_prop (mapped_item ld rawItem) ''id'')
              else ''unknown'') parsed) =
           (if truthy (get_prop (mapped_item ld rawItem) ''Id'')
            then js_String (get_prop (mapped_item ld rawItem) ''Id'')
            else if truthy (get_prop (mapped_item ld rawItem) ''id'')
            then js_String (get_prop (mapped_item ld rawItem) ''id'')
            else ''unknown'')"
  using load_items_single [of parseData ld rawItem parsed store] assms
  by (simp only: item_id_cases) (simp add: store_entry_def)

theorem entry_id_from_truthy_Id_witness:
  "fst (load_items
     \<lparr>ld_name = ''nocodb-posts'', ld_url = ''u'', ld_apiKey = ''k'',
      ld_queryParams = \<lparr>qp_limit = None, qp_other = []\<rparr>, ld_bodyField = ''content'',
      ld_fields = [], ld_mapper = None, ld_retries = 10, ld_delay = 2000\<rparr>
     (\<lambda>i d. Inr d) [[(''title'', JStr ''x'')]] [])
   = [(''unknown'', \<lparr>entry_id = ''unknown'', entry_data = [(''title'', JStr ''x'')], entry_body = None\<rparr>)]"
  using entry_id_from_truthy_Id
    [of "\<lambda>i d. Inr d"
        "\<lparr>ld_name = ''nocodb-posts'', ld_url = ''u'', ld_apiKey = ''k'',
      ld_queryParams = \<lparr>qp_limit = None, qp_other = []\<rparr>, ld_bodyField = ''content'',
      ld_fields = [], ld_mapper = None, ld_retries = 10, ld_delay = 2000\<rparr>"
        "[(''title'', JStr ''x'')]" "[(''title'', JStr ''x'')]" "[]"]
  by (simp add: mapped_item_def item_id_def js_or_def get_prop_def store_entry_def store_set_def)

text \<open>
  C8. When the validated record has a truthy value at the loader's body field, the entry
  handed to \<^verbatim>\<open>store.set\<close> has that value as its body and, as its data, the validated record
  without that key: the key is gone and every other field is as it was. With body field
  \<^verbatim>\<open>content\<close>, the record \<^verbatim>\<open>{Id: "1", content: "hello"}\<close> gives the entry
  \<^verbatim>\<open>{id: "1", data: {Id: "1"}, body: "hello"}\<close>.
\<close>

theorem body_field_moved_to_body:
  assumes "parseData (item_id (mapped_item ld rawItem)) (mapped_item ld rawItem) = Inr parsed"
    and "truthy (get_prop parsed (ld_bodyField ld))"
  shows "fst (load_items ld parseData [rawItem] store) =
           store_set \<lparr>entry_id = item_id (mapped_item ld rawItem),
                      entry_data = filter (\<lambda>(key, v). key \<noteq> ld_bodyField ld) parsed,
                      entry_body = Some (get_prop parsed (ld_bodyField ld))\<rparr> store \<and>
         map_of (filter (\<lambda>(key, v). key \<noteq> ld_bodyField ld) parsed) (ld_bodyField ld) = None \<and>
         (\<forall>key. key \<noteq> ld_bodyField ld \<longrightarrow>
            map_of (filter (\<lambda>(key, v). key \<noteq> ld_bodyField ld) parsed) key = map_of parsed key)"
proof -
  have del: "AList.delete (ld_bodyField ld) parsed = filter (\<lambda>(key, v). key \<noteq> ld_bodyField ld) parsed"
    by (induction parsed) (auto simp: AList.delete_eq)
  have "fst (load_items ld parseData [rawItem] store) =
           store_set \<lparr>entry_id = item_id (mapped_item ld rawItem),
                      entry_data = AList.delete (ld_bodyField ld) parsed,
                      entry_body = Some (get_prop parsed (ld_bodyField ld))\<rparr> store"
    using load_items_single [of parseData ld rawItem parsed store] assms
    by (simp add: store_entry_def)
  moreover have "map_of (AList.delete (ld_bodyField ld) parsed) (ld_bodyField ld) = None"
    by (simp add: delete_conv')
  moreover have "\<forall>key. key \<noteq> ld_bodyField ld \<longrightarrow>
      map_of (AList.delete (ld_bodyField ld) parsed) key = map_of parsed key"
    by simp
  ultimately show ?thesis by (simp only: del) 
qed

theorem body_field_moved_to_body_witness:
  "fst (load_items
     \<lparr>ld_name = ''nocodb-posts'', ld_url = ''u'', ld_apiKey = ''k'',
      ld_queryParams = \<lparr>qp_limit = None, qp_other = []\<rparr>, ld_bodyField = ''content'',
      ld_fields = [], ld_mapper = None, ld_retries = 10, ld_delay = 2000\<rparr>
     (\<lambda>i d. Inr d) [[(''Id'', JStr ''1''), (''content'', JStr ''hello'')]] [])
   = [(''1'', \<lparr>entry_id = ''1'', entry_data = [(''Id'', JStr ''1'')], entry_body = Some (JStr ''hello'')\<rparr>)]"
  using body_field_moved_to_body
    [of "\<lambda>i d. Inr d"
        "\<lparr>ld_name = ''nocodb-posts'', ld_url = ''u'', ld_apiKey = ''k'',
      ld_queryParams = \<lparr>qp_limit = None, qp_other = []\<rparr>, ld_bodyField = ''content'',
      ld_fields = [], ld_mapper = None, ld_retries = 10, ld_delay = 2000\<rparr>"
        "[(''Id'', JStr ''1''), (''content'', JStr ''hello'')]"
        "[(''Id'', JStr ''1''), (''content'', JStr ''hello'')]" "[]"]
  by (simp add: mapped_item_def item_id_def js_or_def get_prop_def store_set_def)




end
